theory Spec2Isabelle
  imports Complex_Main
begin

section \<open>The counterfactual communication protocol of counterfactual\_simulation.py\<close>

text \<open>
  The class \<open>CounterfactualCommunication\<close> is embedded function by function. Python's
  unbounded integers are \<open>int\<close>. A raised exception is a value \<open>Inl e\<close> of a sum type.

  A Python float is an IEEE double; it is modelled by its value, a real number. The float
  operations of \<open>__init__\<close> are the fields of a record, so that the constructor is one
  definition that can be read over two arithmetics: \<open>ieee_arith\<close>, the double arithmetic
  the code runs, and \<open>exact_arith\<close>, the real numbers, for the statements that are made
  about exact arithmetic. The rotation and flip gates are Qiskit's and act on real angles.
\<close>

subsection \<open>Double precision\<close>

text \<open>
  Rounding to the nearest double, ties to even: the doubles of the binade of \<open>x\<close> are the
  multiples of \<open>ulp x\<close>, which has 53 significant bits in the normal range and is
  \<open>2 powr - 1074\<close> in the subnormal range. The exponent is not bounded above here; an
  operation that has to stay in range tests its rounded result against \<open>2 ^ 1024\<close>.
\<close>

definition round_half_even :: "real \<Rightarrow> int" where
  "round_half_even r =
     (let f = \<lfloor>r\<rfloor>
      in if r - of_int f < 1 / 2 then f
         else if 1 / 2 < r - of_int f then f + 1
         else if even f then f else f + 1)"

definition binade :: "real \<Rightarrow> int" where
  "binade x = max \<lfloor>log 2 \<bar>x\<bar>\<rfloor> (- 1022)"

definition ulp :: "real \<Rightarrow> real" where
  "ulp x = 2 powr (of_int (binade x) - 52)"

definition rnd :: "real \<Rightarrow> real" where
  "rnd x = (if x = 0 then 0 else of_int (round_half_even (x / ulp x)) * ulp x)"

datatype error = ZeroDivisionError | OverflowError

text \<open>
  The conversion of a Python integer to a float (\<open>PyLong_AsDouble\<close>): correctly rounded,
  \<open>OverflowError\<close> when the rounded value is not a finite double.
\<close>

definition int_to_double :: "int \<Rightarrow> error + real" where
  "int_to_double n =
     (let y = rnd (real_of_int n)
      in if 2 ^ 1024 \<le> \<bar>y\<bar> then Inl OverflowError else Inr y)"

text \<open>
  What \<open>__init__\<close> uses of float arithmetic: the constant \<open>np.pi\<close>, the conversion of the
  integer divisor, the division of two floats with a non-zero divisor, and \<open>x ** 2\<close>.
\<close>

record arithmetic =
  np_pi :: real
  int_to_float :: "int \<Rightarrow> error + real"
  float_truediv :: "real \<Rightarrow> real \<Rightarrow> real"
  float_pow2 :: "real \<Rightarrow> real"

text \<open>
  The arithmetic of the code. \<open>np.pi\<close> is the double \<open>0x400921FB54442D18\<close>. Division is
  correctly rounded; its results here are at most \<open>np.pi\<close> in magnitude, the divisor being a
  converted non-zero integer, so it cannot overflow. \<open>x ** 2\<close> is \<open>pow(x, 2.0)\<close> of the C
  library, which is not part of this repository and not correctly rounded in general: it
  is the parameter \<open>pw\<close>. Its argument is at most \<open>np.pi\<close> in magnitude, so it cannot
  overflow either. \<open>square_rounded\<close> is the correctly rounded square, one such function.
\<close>

definition ieee_arith :: "(real \<Rightarrow> real) \<Rightarrow> arithmetic" where
  "ieee_arith pw =
     \<lparr>np_pi = 884279719003555 / 2 ^ 48,
      int_to_float = int_to_double,
      float_truediv = (\<lambda>x y. rnd (x / y)),
      float_pow2 = pw\<rparr>"

definition square_rounded :: "real \<Rightarrow> real" where
  "square_rounded x = rnd (x * x)"

text \<open>Exact arithmetic: nothing is rounded and nothing overflows.\<close>

definition exact_arith :: arithmetic where
  "exact_arith =
     \<lparr>np_pi = pi,
      int_to_float = (\<lambda>n. Inr (real_of_int n)),
      float_truediv = (\<lambda>x y. x / y),
      float_pow2 = (\<lambda>x. x ^ 2)\<rparr>"

subsection \<open>Construction\<close>

record protocol =
  self_M :: int
  self_N :: int
  theta_M :: real
  theta_N :: real
  leakage_prob :: real

text \<open>
  \<open>x / d\<close> for a float \<open>x\<close> and an integer \<open>d\<close>: Python converts \<open>d\<close> to a float first,
  then raises on a zero divisor, then divides.
\<close>

definition float_div :: "arithmetic \<Rightarrow> real \<Rightarrow> int \<Rightarrow> error + real" where
  "float_div ar x d =
     (case int_to_float ar d of
        Inl e \<Rightarrow> Inl e
      | Inr y \<Rightarrow> if y = 0 then Inl ZeroDivisionError else Inr (float_truediv ar x y))"

text \<open>
  \<open>__init__\<close>: the three divisions in the order of the source; the first that fails ends
  the construction. There is no other check on \<open>M\<close> and \<open>N\<close>.
\<close>

definition init :: "arithmetic \<Rightarrow> int \<Rightarrow> int \<Rightarrow> error + protocol" where
  "init ar M N =
     (case float_div ar (np_pi ar) (4 * M) of
        Inl e \<Rightarrow> Inl e
      | Inr tM \<Rightarrow>
          (case float_div ar (np_pi ar) (4 * N) of
             Inl e \<Rightarrow> Inl e
           | Inr tN \<Rightarrow>
               (case float_div ar (np_pi ar) (16 * M * N) of
                  Inl e \<Rightarrow> Inl e
                | Inr q \<Rightarrow>
                    Inr \<lparr>self_M = M, self_N = N, theta_M = tM, theta_N = tN,
                         leakage_prob = float_pow2 ar q\<rparr>)))"

subsection \<open>Circuits\<close>

text \<open>
  A circuit is the list of the instructions appended to it. The two gates the code uses
  are \<open>ry\<close> and \<open>x\<close>; \<open>create_circuit\<close> also appends labelled barriers and a measurement.
  A barrier label \<open>f'Outer{cycle+1}'\<close> is kept as the tag with its number.
\<close>

datatype gate = RY real | XGate

datatype label =
  Outer int | Inner int | Bob_BLOCKS | Bob_PASS | RetInner int | RetOuter int

datatype instruction = Gate gate | Barrier label | Measure

text \<open>\<open>range(n)\<close>: the integers \<open>0, ..., n - 1\<close>, none when \<open>n \<le> 0\<close>.\<close>

definition range_py :: "int \<Rightarrow> int list" where
  "range_py n = map int [0..<nat n]"

definition outer_cycle :: "protocol \<Rightarrow> instruction list \<Rightarrow> int \<Rightarrow> instruction list" where
  "outer_cycle p qc cycle = qc @ [Gate (RY (2 * theta_M p)), Barrier (Outer (cycle + 1))]"

definition inner_cycle ::
  "protocol \<Rightarrow> bool \<Rightarrow> instruction list \<Rightarrow> int \<Rightarrow> instruction list" where
  "inner_cycle p bob_blocks qc cycle =
     (let qc1 = qc @ [Gate (RY (2 * theta_N p))]
      in if cycle = self_N p div 2
         then (if bob_blocks then qc1 @ [Gate XGate, Barrier Bob_BLOCKS]
               else qc1 @ [Barrier Bob_PASS])
         else qc1 @ [Barrier (Inner (cycle + 1))])"

definition ret_inner_cycle :: "protocol \<Rightarrow> instruction list \<Rightarrow> int \<Rightarrow> instruction list" where
  "ret_inner_cycle p qc cycle =
     qc @ [Gate (RY (- 2 * theta_N p)), Barrier (RetInner (cycle + 1))]"

definition ret_outer_cycle :: "protocol \<Rightarrow> instruction list \<Rightarrow> int \<Rightarrow> instruction list" where
  "ret_outer_cycle p qc cycle =
     qc @ [Gate (RY (- 2 * theta_M p)), Barrier (RetOuter (cycle + 1))]"

definition create_circuit :: "protocol \<Rightarrow> bool \<Rightarrow> bool \<Rightarrow> instruction list" where
  "create_circuit p bob_blocks measure_flag =
     (let qc1 = foldl (outer_cycle p) [] (range_py (self_M p));
          qc2 = foldl (inner_cycle p bob_blocks) qc1 (range_py (self_N p));
          qc3 = foldl (ret_inner_cycle p) qc2 (range_py (self_N p));
          qc4 = foldl (ret_outer_cycle p) qc3 (range_py (self_M p))
      in if measure_flag then qc4 @ [Measure] else qc4)"

text \<open>The gate sequence of a circuit: its instructions without barriers and measurement.\<close>

fun gates_of :: "instruction list \<Rightarrow> gate list" where
  "gates_of [] = []"
| "gates_of (Gate g # qc) = g # gates_of qc"
| "gates_of (Barrier l # qc) = gates_of qc"
| "gates_of (Measure # qc) = gates_of qc"

subsection \<open>State vectors\<close>

text \<open>
  \<open>Statevector.from_instruction\<close> belongs to Qiskit, not to this repository. It applies
  the gates of a one-qubit circuit, in order, to the state \<open>|0>\<close>. The matrices are those
  of Qiskit's gate library, which are also the formulas of the specification: \<open>ry(t)\<close>
  is the real rotation with entries \<open>cos (t/2)\<close>, \<open>- sin (t/2)\<close>, \<open>sin (t/2)\<close>,
  \<open>cos (t/2)\<close>, and \<open>x\<close> exchanges the two amplitudes.
\<close>

type_synonym statevector = "complex \<times> complex"

fun apply_gate :: "statevector \<Rightarrow> gate \<Rightarrow> statevector" where
  "apply_gate (a0, a1) (RY t) =
     (complex_of_real (cos (t / 2)) * a0 - complex_of_real (sin (t / 2)) * a1,
      complex_of_real (sin (t / 2)) * a0 + complex_of_real (cos (t / 2)) * a1)"
| "apply_gate (a0, a1) XGate = (a1, a0)"

definition from_instruction :: "gate list \<Rightarrow> statevector" where
  "from_instruction qc = foldl apply_gate (1, 0) qc"

text \<open>The probabilities the code plots: \<open>abs(s.data[0])**2\<close> and \<open>abs(s.data[1])**2\<close>.\<close>

definition prob_H :: "statevector \<Rightarrow> real" where
  "prob_H s = (cmod (fst s)) ^ 2"

definition prob_V :: "statevector \<Rightarrow> real" where
  "prob_V s = (cmod (snd s)) ^ 2"

subsection \<open>State evolution\<close>

text \<open>
  \<open>get_state_evolution\<close> keeps two mutable objects, the circuit \<open>qc\<close> and the list
  \<open>states\<close>; each loop body is a function on that pair. Every \<open>append\<close> recomputes the
  state vector of the whole circuit built so far. In the inner forward loop the flip is
  appended to the circuit before the single \<open>append\<close> of that iteration.
\<close>

type_synonym evolution = "gate list \<times> statevector list"

definition ry_step :: "real \<Rightarrow> evolution \<Rightarrow> int \<Rightarrow> evolution" where
  "ry_step t st cycle =
     (let qc1 = fst st @ [RY t] in (qc1, snd st @ [from_instruction qc1]))"

definition inner_step :: "protocol \<Rightarrow> bool \<Rightarrow> evolution \<Rightarrow> int \<Rightarrow> evolution" where
  "inner_step p bob_blocks st cycle =
     (let qc1 = fst st @ [RY (2 * theta_N p)];
          qc2 = (if cycle = self_N p div 2 \<and> bob_blocks then qc1 @ [XGate] else qc1)
      in (qc2, snd st @ [from_instruction qc2]))"

definition evolve :: "protocol \<Rightarrow> bool \<Rightarrow> evolution" where
  "evolve p bob_blocks =
     (let st0 = ([], [from_instruction []]);
          st1 = foldl (ry_step (2 * theta_M p)) st0 (range_py (self_M p));
          st2 = foldl (inner_step p bob_blocks) st1 (range_py (self_N p));
          st3 = foldl (ry_step (- 2 * theta_N p)) st2 (range_py (self_N p));
          st4 = foldl (ry_step (- 2 * theta_M p)) st3 (range_py (self_M p))
      in st4)"

definition get_state_evolution :: "protocol \<Rightarrow> bool \<Rightarrow> statevector list" where
  "get_state_evolution p bob_blocks = snd (evolve p bob_blocks)"


subsection \<open>Analysis of the counts\<close>




subsection \<open>The real states of the protocol\<close>

text \<open>
  Every state the protocol reaches has real amplitudes \<open>(cos phi, sin phi)\<close>. \<open>rot\<close> names
  that state; it is used in the proofs only.
\<close>

definition rot :: "real \<Rightarrow> statevector" where
  "rot phi = (complex_of_real (cos phi), complex_of_real (sin phi))"

section \<open>Properties\<close>

subsection \<open>Rounding\<close>

lemma rhe_range: "\<lfloor>r\<rfloor> \<le> round_half_even r \<and> round_half_even r \<le> \<lfloor>r\<rfloor> + 1"
  by (simp add: round_half_even_def Let_def)

lemma rhe_int: "round_half_even (of_int n) = n"
  by (simp add: round_half_even_def)

lemma rhe_mono:
  assumes "r \<le> s"
  shows "round_half_even r \<le> round_half_even s"
proof (cases "\<lfloor>r\<rfloor> = \<lfloor>s\<rfloor>")
  case True
  then show ?thesis using assms
    by (auto simp add: round_half_even_def Let_def)
next
  case False
  then have "\<lfloor>r\<rfloor> < \<lfloor>s\<rfloor>" using floor_mono [OF assms] by simp
  then show ?thesis using rhe_range [of r] rhe_range [of s] by linarith
qed

lemma rhe_le: "r \<le> of_int n \<Longrightarrow> round_half_even r \<le> n"
  using rhe_mono [of r "of_int n"] by (simp add: rhe_int)

lemma rhe_ge: "of_int n \<le> r \<Longrightarrow> n \<le> round_half_even r"
  using rhe_mono [of "of_int n" r] by (simp add: rhe_int)

lemma ulp_pos: "0 < ulp x"
  by (simp add: ulp_def)

lemma binade_upper:
  assumes "x \<noteq> 0"
  shows "\<bar>x\<bar> < 2 powr (of_int (binade x) + 1)"
proof -
  have "log 2 \<bar>x\<bar> < of_int \<lfloor>log 2 \<bar>x\<bar>\<rfloor> + 1" by linarith
  also have "\<dots> \<le> of_int (binade x) + 1" by (simp add: binade_def)
  finally have "2 powr (log 2 \<bar>x\<bar>) < 2 powr (of_int (binade x) + 1)" by simp
  then show ?thesis using assms by simp
qed

lemma binade_lower:
  assumes "2 powr (- 1022) \<le> \<bar>x\<bar>"
  shows "2 powr (of_int (binade x)) \<le> \<bar>x\<bar>"
proof -
  have pos: "0 < \<bar>x\<bar>" using assms by (smt (verit) powr_gt_zero)
  have "(- 1022 :: real) \<le> log 2 \<bar>x\<bar>" using assms pos by (simp add: le_log_iff)
  then have "(- 1022 :: int) \<le> \<lfloor>log 2 \<bar>x\<bar>\<rfloor>" by (simp add: le_floor_iff)
  then have b: "binade x = \<lfloor>log 2 \<bar>x\<bar>\<rfloor>" by (simp add: binade_def)
  have "of_int \<lfloor>log 2 \<bar>x\<bar>\<rfloor> \<le> log 2 \<bar>x\<bar>" by simp
  then have "2 powr (of_int \<lfloor>log 2 \<bar>x\<bar>\<rfloor>) \<le> 2 powr (log 2 \<bar>x\<bar>)" by simp
  then show ?thesis using pos by (simp add: b)
qed

lemma binade_ge: "- 1022 \<le> k \<Longrightarrow> 2 powr (of_int k) \<le> \<bar>x\<bar> \<Longrightarrow> k \<le> binade x"
proof -
  assume k: "- 1022 \<le> k" and x: "2 powr (of_int k) \<le> \<bar>x\<bar>"
  have pos: "0 < \<bar>x\<bar>" using x by (smt (verit) powr_gt_zero)
  have "of_int k \<le> log 2 \<bar>x\<bar>" using x pos by (simp add: le_log_iff)
  then have "k \<le> \<lfloor>log 2 \<bar>x\<bar>\<rfloor>" by (simp add: le_floor_iff)
  then show ?thesis by (simp add: binade_def)
qed

lemma binade_le: "- 1022 \<le> k \<Longrightarrow> x \<noteq> 0 \<Longrightarrow> \<bar>x\<bar> < 2 powr (of_int k + 1) \<Longrightarrow> binade x \<le> k"
proof -
  assume k: "- 1022 \<le> k" and x0: "x \<noteq> 0" and x: "\<bar>x\<bar> < 2 powr (of_int k + 1)"
  have "log 2 \<bar>x\<bar> < of_int k + 1" using x x0 by (simp add: log_less_iff)
  then have "\<lfloor>log 2 \<bar>x\<bar>\<rfloor> \<le> k" by (simp add: floor_le_iff)
  then show ?thesis using k by (simp add: binade_def)
qed

lemma rhe_abs_le:
  assumes "\<bar>r\<bar> \<le> of_int n"
  shows "\<bar>real_of_int (round_half_even r)\<bar> \<le> of_int n"
proof -
  have "r \<le> of_int n" and "of_int (- n) \<le> r" using assms by auto
  then have "round_half_even r \<le> n" and "- n \<le> round_half_even r"
    using rhe_le rhe_ge by blast+
  then have "\<bar>round_half_even r\<bar> \<le> n" by linarith
  then have "real_of_int \<bar>round_half_even r\<bar> \<le> real_of_int n"
    by (simp only: of_int_le_iff)
  then show ?thesis by simp
qed

lemma rhe_abs_ge:
  assumes "of_int n \<le> \<bar>r\<bar>"
  shows "of_int n \<le> \<bar>real_of_int (round_half_even r)\<bar>"
proof -
  have "n \<le> \<bar>round_half_even r\<bar>"
  proof (cases "0 \<le> r")
    case True
    then have "of_int n \<le> r" using assms by simp
    then have "n \<le> round_half_even r" by (rule rhe_ge)
    then show ?thesis by linarith
  next
    case False
    then have "r \<le> of_int (- n)" using assms by simp
    then have "round_half_even r \<le> - n" by (rule rhe_le)
    then show ?thesis by linarith
  qed
  then have "real_of_int n \<le> real_of_int \<bar>round_half_even r\<bar>"
    by (simp only: of_int_le_iff)
  then show ?thesis by simp
qed

lemma ulp_scale: "2 powr (of_int (binade x) + of_int k) = 2 powr (of_int k + 52) * ulp x"
proof -
  have "2 powr (of_int (binade x) + of_int k) =
        (2::real) powr ((of_int k + 52) + (of_int (binade x) - 52))"
    by (rule arg_cong [where f = "\<lambda>t. 2 powr t"]) simp
  also have "\<dots> = 2 powr (of_int k + 52) * ulp x"
    unfolding ulp_def by (rule powr_add)
  finally show ?thesis .
qed

lemma rnd_abs_upper:
  "\<bar>rnd x\<bar> \<le> 2 powr (of_int (binade x) + 1)"
proof (cases "x = 0")
  case True
  then show ?thesis by (simp add: rnd_def)
next
  case False
  let ?u = "ulp x"
  define B :: int where "B = 2 ^ 53"
  have B: "real_of_int B = 2 powr (of_int 1 + 52)" by (simp add: B_def)
  have u: "0 < ?u" by (rule ulp_pos)
  have e: "2 powr (of_int (binade x) + 1) = of_int B * ?u"
    using ulp_scale [of x 1] by (simp only: B of_int_1)
  have "\<bar>x\<bar> < of_int B * ?u" using binade_upper [OF False] by (simp only: e)
  then have "\<bar>x\<bar> / ?u < of_int B" using u by (simp only: pos_divide_less_eq)
  then have "\<bar>x\<bar> / ?u \<le> of_int B" by (rule less_imp_le)
  then have "\<bar>x / ?u\<bar> \<le> of_int B" by (simp only: abs_divide abs_of_pos [OF u])
  then have "\<bar>real_of_int (round_half_even (x / ?u))\<bar> \<le> of_int B"
    by (rule rhe_abs_le)
  then have "\<bar>real_of_int (round_half_even (x / ?u))\<bar> * ?u \<le> of_int B * ?u"
    using u by (simp only: mult_le_cancel_right_pos)
  moreover have "\<bar>rnd x\<bar> = \<bar>real_of_int (round_half_even (x / ?u))\<bar> * ?u"
    using False by (simp only: rnd_def if_False abs_mult abs_of_pos [OF u])
  ultimately show ?thesis by (simp only: e)
qed

lemma rnd_abs_lower:
  assumes "2 powr (- 1022) \<le> \<bar>x\<bar>"
  shows "2 powr (of_int (binade x)) \<le> \<bar>rnd x\<bar>"
proof -
  let ?u = "ulp x"
  define B :: int where "B = 2 ^ 52"
  have B: "real_of_int B = 2 powr (of_int 0 + 52)" by (simp add: B_def)
  have u: "0 < ?u" by (rule ulp_pos)
  have x0: "x \<noteq> 0" using assms by (smt (verit) powr_gt_zero)
  have e: "2 powr (of_int (binade x)) = of_int B * ?u"
    using ulp_scale [of x 0] by (simp only: B of_int_0 add_0_right)
  have "of_int B * ?u \<le> \<bar>x\<bar>" using binade_lower [OF assms] by (simp only: e)
  then have "of_int B \<le> \<bar>x\<bar> / ?u" using u by (simp only: pos_le_divide_eq)
  then have "of_int B \<le> \<bar>x / ?u\<bar>" by (simp only: abs_divide abs_of_pos [OF u])
  then have "of_int B \<le> \<bar>real_of_int (round_half_even (x / ?u))\<bar>"
    by (rule rhe_abs_ge)
  then have "of_int B * ?u \<le> \<bar>real_of_int (round_half_even (x / ?u))\<bar> * ?u"
    using u by (simp only: mult_le_cancel_right_pos)
  moreover have "\<bar>rnd x\<bar> = \<bar>real_of_int (round_half_even (x / ?u))\<bar> * ?u"
    using x0 by (simp only: rnd_def if_False abs_mult abs_of_pos [OF u])
  ultimately show ?thesis by (simp only: e)
qed


lemma rnd_0: "rnd 0 = 0"
  by (simp add: rnd_def)

lemma rnd_nonneg: "0 \<le> x \<Longrightarrow> 0 \<le> rnd x"
proof -
  assume x: "0 \<le> x"
  have "0 \<le> x / ulp x" using x ulp_pos [of x] by simp
  then have "of_int 0 \<le> x / ulp x" by simp
  then have "0 \<le> round_half_even (x / ulp x)" by (rule rhe_ge)
  then show ?thesis using ulp_pos [of x] by (simp add: rnd_def)
qed

lemma rnd_below_range:
  assumes "\<bar>x\<bar> < 2 ^ 1023"
  shows "\<bar>rnd x\<bar> < 2 ^ 1024"
proof (cases "x = 0")
  case True
  then show ?thesis by (simp add: rnd_0)
next
  case False
  have "\<bar>x\<bar> < 2 powr (of_int 1022 + 1)" using assms by simp
  then have "binade x \<le> 1022" using False by (intro binade_le) simp_all
  then have "of_int (binade x) + 1 \<le> (1023 :: real)" by simp
  then have "2 powr (of_int (binade x) + 1) \<le> (2::real) powr 1023"
    by (rule powr_mono) simp
  then have "\<bar>rnd x\<bar> \<le> 2 powr 1023" using rnd_abs_upper [of x] by linarith
  also have "(2::real) powr 1023 < 2 powr 1024"
    by (rule powr_less_mono) simp_all
  also have "(2::real) powr 1024 = 2 ^ 1024" by simp
  finally show ?thesis .
qed

lemma rnd_at_least:
  assumes "- 1022 \<le> k" and "2 powr (of_int k) \<le> \<bar>x\<bar>"
  shows "2 powr (of_int k) \<le> \<bar>rnd x\<bar>"
proof -
  have "of_int (- 1022) \<le> (of_int k :: real)" using assms(1) by (simp only: of_int_le_iff)
  then have "(2::real) powr (- 1022) \<le> 2 powr (of_int k)" by simp
  then have lo: "2 powr (- 1022) \<le> \<bar>x\<bar>" using assms(2) by linarith
  have "k \<le> binade x" using assms by (rule binade_ge)
  then have "(of_int k :: real) \<le> of_int (binade x)" by (simp only: of_int_le_iff)
  then have "(2::real) powr (of_int k) \<le> 2 powr (of_int (binade x))" by simp
  then show ?thesis using rnd_abs_lower [OF lo] by linarith
qed

lemma rnd_above_range:
  assumes "2 ^ 1024 \<le> \<bar>x\<bar>"
  shows "2 ^ 1024 \<le> \<bar>rnd x\<bar>"
  using rnd_at_least [of 1024 x] assms by simp

lemma rnd_ge_1:
  assumes "1 \<le> \<bar>x\<bar>"
  shows "1 \<le> \<bar>rnd x\<bar>"
  using rnd_at_least [of 0 x] assms by simp

lemma binade_mono:
  assumes "0 < x" and "x \<le> y"
  shows "binade x \<le> binade y"
proof -
  have "log 2 \<bar>x\<bar> \<le> log 2 \<bar>y\<bar>" using assms by simp
  then have "\<lfloor>log 2 \<bar>x\<bar>\<rfloor> \<le> \<lfloor>log 2 \<bar>y\<bar>\<rfloor>" by (rule floor_mono)
  then show ?thesis by (simp add: binade_def)
qed

lemma rnd_mono_pos:
  assumes "0 < x" and "x \<le> y"
  shows "rnd x \<le> rnd y"
proof (cases "binade x = binade y")
  case True
  then have u: "ulp y = ulp x" by (simp add: ulp_def)
  have "x / ulp x \<le> y / ulp x" using assms ulp_pos [of x] by (simp add: divide_right_mono)
  then have "round_half_even (x / ulp x) \<le> round_half_even (y / ulp x)" by (rule rhe_mono)
  then have "real_of_int (round_half_even (x / ulp x)) \<le> real_of_int (round_half_even (y / ulp x))"
    by (simp only: of_int_le_iff)
  then have "real_of_int (round_half_even (x / ulp x)) * ulp x
      \<le> real_of_int (round_half_even (y / ulp x)) * ulp x"
    using ulp_pos [of x] by (simp only: mult_le_cancel_right_pos)
  then show ?thesis using assms by (simp add: rnd_def u)
next
  case False
  then have lt: "binade x < binade y" using binade_mono [OF assms] by simp
  have y: "0 < y" using assms by simp
  have "- 1022 \<le> binade x" by (simp add: binade_def)
  then have "- 1022 < binade y" using lt by simp
  then have fl: "binade y = \<lfloor>log 2 \<bar>y\<bar>\<rfloor>" by (simp add: binade_def max_def split: if_splits)
  have "of_int \<lfloor>log 2 \<bar>y\<bar>\<rfloor> \<le> log 2 \<bar>y\<bar>" by simp
  then have "2 powr (of_int (binade y)) \<le> 2 powr (log 2 \<bar>y\<bar>)" by (simp add: fl)
  then have ylo: "2 powr (of_int (binade y)) \<le> \<bar>y\<bar>" using y by simp
  have "- 1022 \<le> binade y" by (simp add: binade_def)
  then have lo: "2 powr (of_int (binade y)) \<le> \<bar>rnd y\<bar>" using ylo by (rule rnd_at_least)
  have "of_int (binade x) + 1 \<le> (of_int (binade y) :: real)" using lt by linarith
  then have "(2::real) powr (of_int (binade x) + 1) \<le> 2 powr (of_int (binade y))" by simp
  then have "\<bar>rnd x\<bar> \<le> \<bar>rnd y\<bar>" using rnd_abs_upper [of x] lo by linarith
  then show ?thesis using rnd_nonneg [of y] y by linarith
qed

lemma rnd_mono:
  assumes "0 \<le> x" and "x \<le> y"
  shows "rnd x \<le> rnd y"
proof (cases "x = 0")
  case True
  then show ?thesis using rnd_nonneg [of y] assms by (simp add: rnd_0)
next
  case False
  then have "0 < x" using assms by simp
  then show ?thesis using assms(2) by (rule rnd_mono_pos)
qed

lemma rnd_in_binade:
  assumes "- 1022 \<le> e" and "2 powr (of_int e) \<le> \<bar>x\<bar>" and "\<bar>x\<bar> < 2 powr (of_int e + 1)"
  shows "rnd x = of_int (round_half_even (x / 2 powr (of_int e - 52))) * 2 powr (of_int e - 52)"
proof -
  have x0: "x \<noteq> 0" using assms(2) by (smt (verit) powr_gt_zero)
  have "e \<le> binade x" using assms(1,2) by (rule binade_ge)
  moreover have "binade x \<le> e" using assms(1) x0 assms(3) by (rule binade_le)
  ultimately have "binade x = e" by simp
  then show ?thesis using x0 by (simp add: rnd_def ulp_def)
qed

lemma rnd_2_57: "rnd (2 ^ 57) = 2 ^ 57"
proof -
  have "rnd (2 ^ 57) = of_int (round_half_even (2 ^ 57 / 2 powr (of_int 57 - 52))) * 2 powr (of_int 57 - 52)"
    by (rule rnd_in_binade) simp_all
  also have "\<dots> = 2 ^ 57"
    by (simp add: round_half_even_def)
  finally show ?thesis .
qed

lemma rnd_2_57_16: "rnd (2 ^ 57 + 16) = 2 ^ 57"
proof -
  have "rnd (2 ^ 57 + 16) =
      of_int (round_half_even ((2 ^ 57 + 16) / 2 powr (of_int 57 - 52))) * 2 powr (of_int 57 - 52)"
    by (rule rnd_in_binade) simp_all
  also have "\<dots> = 2 ^ 57"
    by (simp add: round_half_even_def)
  finally show ?thesis .
qed


subsection \<open>Construction in double arithmetic\<close>

lemma int_to_double_ok:
  assumes "n \<noteq> 0" and "\<bar>n\<bar> < 2 ^ 1023"
  shows "int_to_double n = Inr (rnd (real_of_int n))" and "rnd (real_of_int n) \<noteq> 0"
proof -
  have "real_of_int \<bar>n\<bar> < real_of_int (2 ^ 1023)" using assms(2) by (simp only: of_int_less_iff)
  then have "\<bar>real_of_int n\<bar> < 2 ^ 1023" by simp
  then have "\<bar>rnd (real_of_int n)\<bar> < 2 ^ 1024" by (rule rnd_below_range)
  then show "int_to_double n = Inr (rnd (real_of_int n))"
    by (simp add: int_to_double_def Let_def)
  have "1 \<le> \<bar>n\<bar>" using assms(1) by simp
  then have "real_of_int 1 \<le> real_of_int \<bar>n\<bar>" by (simp only: of_int_le_iff)
  then have "1 \<le> \<bar>real_of_int n\<bar>" by simp
  then have "1 \<le> \<bar>rnd (real_of_int n)\<bar>" by (rule rnd_ge_1)
  then show "rnd (real_of_int n) \<noteq> 0" by auto
qed

lemma int_to_double_overflow:
  assumes "2 ^ 1024 \<le> \<bar>n\<bar>"
  shows "int_to_double n = Inl OverflowError"
proof -
  have "real_of_int (2 ^ 1024) \<le> real_of_int \<bar>n\<bar>" using assms by (simp only: of_int_le_iff)
  then have "2 ^ 1024 \<le> \<bar>real_of_int n\<bar>" by simp
  then have "2 ^ 1024 \<le> \<bar>rnd (real_of_int n)\<bar>" by (rule rnd_above_range)
  then show ?thesis by (simp add: int_to_double_def Let_def)
qed

lemma int_to_double_0: "int_to_double 0 = Inr 0"
  by (simp add: int_to_double_def rnd_0)

lemma float_div_ieee_ok:
  assumes "n \<noteq> 0" and "\<bar>n\<bar> < 2 ^ 1023"
  shows "float_div (ieee_arith pw) x n = Inr (rnd (x / rnd (real_of_int n)))"
  using int_to_double_ok [OF assms] by (simp add: float_div_def ieee_arith_def)

lemma float_div_ieee_0: "float_div (ieee_arith pw) x 0 = Inl ZeroDivisionError"
  by (simp add: float_div_def ieee_arith_def int_to_double_0)

lemma float_div_ieee_overflow:
  "2 ^ 1024 \<le> \<bar>n\<bar> \<Longrightarrow> float_div (ieee_arith pw) x n = Inl OverflowError"
  by (simp add: float_div_def ieee_arith_def int_to_double_overflow)

lemma init_ieee_ok:
  assumes "M \<noteq> 0" and "N \<noteq> 0" and "16 * \<bar>M * N\<bar> < 2 ^ 1023"
  shows "init (ieee_arith pw) M N =
           Inr \<lparr>self_M = M, self_N = N,
                theta_M = rnd (np_pi (ieee_arith pw) / rnd (real_of_int (4 * M))),
                theta_N = rnd (np_pi (ieee_arith pw) / rnd (real_of_int (4 * N))),
                leakage_prob = pw (rnd (np_pi (ieee_arith pw) / rnd (real_of_int (16 * M * N))))\<rparr>"
proof -
  have m1: "1 \<le> \<bar>M\<bar>" and n1: "1 \<le> \<bar>N\<bar>" using assms(1,2) by simp_all
  have mn: "\<bar>M * N\<bar> = \<bar>M\<bar> * \<bar>N\<bar>" by (rule abs_mult)
  have "\<bar>M\<bar> * 1 \<le> \<bar>M\<bar> * \<bar>N\<bar>" using n1 by (intro mult_left_mono) simp_all
  then have a: "\<bar>4 * M\<bar> < 2 ^ 1023" using assms(3) mn by simp
  have "1 * \<bar>N\<bar> \<le> \<bar>M\<bar> * \<bar>N\<bar>" using m1 by (intro mult_right_mono) simp_all
  then have b: "\<bar>4 * N\<bar> < 2 ^ 1023" using assms(3) mn by simp
  have c: "\<bar>16 * M * N\<bar> < 2 ^ 1023" using assms(3) by (simp add: abs_mult)
  have a0: "4 * M \<noteq> 0" and b0: "4 * N \<noteq> 0" and c0: "16 * M * N \<noteq> 0"
    using assms(1,2) by simp_all
  show ?thesis
    unfolding init_def float_div_ieee_ok [OF a0 a] float_div_ieee_ok [OF b0 b]
      float_div_ieee_ok [OF c0 c]
    by (simp add: ieee_arith_def)
qed

lemma init_fields: "init ar M N = Inr p \<Longrightarrow> self_M p = M \<and> self_N p = N"
  by (auto simp add: init_def split: sum.splits)

lemma init_ieee_leakage:
  assumes "init (ieee_arith pw) M N = Inr p"
  shows "leakage_prob p = pw (rnd (np_pi (ieee_arith pw) / rnd (real_of_int (16 * M * N))))"
    and "rnd (real_of_int (16 * M * N)) \<noteq> 0"
  using assms
  by (auto simp add: init_def float_div_def ieee_arith_def int_to_double_def Let_def
      split: sum.splits if_splits)

lemma init_exact_eq:
  "init exact_arith M N =
     (if M = 0 \<or> N = 0 then Inl ZeroDivisionError
      else Inr \<lparr>self_M = M, self_N = N, theta_M = pi / real_of_int (4 * M),
                theta_N = pi / real_of_int (4 * N),
                leakage_prob = (pi / real_of_int (16 * M * N)) ^ 2\<rparr>)"
  by (simp add: init_def float_div_def exact_arith_def)

subsection \<open>The leakage probability and the missing validation\<close>

lemma square_rounded_mono: "0 \<le> x \<Longrightarrow> x \<le> y \<Longrightarrow> square_rounded x \<le> square_rounded y"
proof -
  assume x: "0 \<le> x" and xy: "x \<le> y"
  have "x * x \<le> y * y" using x xy by (intro mult_mono) simp_all
  moreover have "0 \<le> x * x" by simp
  ultimately show ?thesis unfolding square_rounded_def by (intro rnd_mono)
qed

lemma np_pi_pos: "0 < np_pi (ieee_arith pw)"
  by (simp add: ieee_arith_def)

lemma ieee_leakage_antimono:
  assumes pw: "\<And>x y. 0 \<le> x \<Longrightarrow> x \<le> y \<Longrightarrow> pw x \<le> pw y"
    and ab: "1 \<le> a" "a \<le> b"
    and p1: "init (ieee_arith pw) M1 N1 = Inr p1" and p2: "init (ieee_arith pw) M2 N2 = Inr p2"
    and a: "16 * M1 * N1 = a" and b: "16 * M2 * N2 = b"
  shows "leakage_prob p2 \<le> leakage_prob p1"
proof -
  let ?c = "np_pi (ieee_arith pw)"
  let ?y1 = "rnd (real_of_int a)" and ?y2 = "rnd (real_of_int b)"
  have ra: "0 < real_of_int a" and rab: "real_of_int a \<le> real_of_int b"
    using ab by simp_all
  have y12: "?y1 \<le> ?y2" using ra rab by (intro rnd_mono) simp_all
  have "0 \<le> ?y1" using ra by (intro rnd_nonneg) simp
  moreover have "?y1 \<noteq> 0" using init_ieee_leakage(2) [OF p1] unfolding a .
  ultimately have y1: "0 < ?y1" by simp
  have "?c / ?y2 \<le> ?c / ?y1"
    using y1 y12 np_pi_pos [of pw] by (intro divide_left_mono) (simp_all add: less_imp_le)
  moreover have "0 \<le> ?c / ?y2" using y1 y12 np_pi_pos [of pw] by simp
  ultimately have "rnd (?c / ?y2) \<le> rnd (?c / ?y1)" and "0 \<le> rnd (?c / ?y2)"
    by (simp_all add: rnd_mono rnd_nonneg)
  then have "pw (rnd (?c / ?y2)) \<le> pw (rnd (?c / ?y1))" by (intro pw)
  then show ?thesis
    using init_ieee_leakage(1) [OF p1] init_ieee_leakage(1) [OF p2] unfolding a b by simp
qed

lemma leakage_antimono:
  assumes "1 \<le> a" "a < b" "1 \<le> c"
  shows "(pi / real_of_int (16 * b * c))\<^sup>2 < (pi / real_of_int (16 * a * c))\<^sup>2"
proof -
  have "a * c < b * c" using assms by simp
  then have "16 * a * c < 16 * b * c" by simp
  then have lt: "real_of_int (16 * a * c) < real_of_int (16 * b * c)"
    by (simp only: of_int_less_iff)
  have pos: "0 < real_of_int (16 * a * c)" using assms by simp
  have "pi / real_of_int (16 * b * c) < pi / real_of_int (16 * a * c)"
    using lt pos by (simp add: frac_less2)
  moreover have "0 \<le> pi / real_of_int (16 * b * c)" using assms by simp
  ultimately show ?thesis by (rule power_strict_mono) simp
qed

lemma init_valid:
  assumes "1 \<le> M" "1 \<le> N"
  shows "init exact_arith M N = Inr \<lparr>self_M = M, self_N = N, theta_M = pi / real_of_int (4 * M),
                theta_N = pi / real_of_int (4 * N),
                leakage_prob = (pi / real_of_int (16 * M * N)) ^ 2\<rparr>"
  using assms by (simp add: init_exact_eq)

text \<open>
  Claim C7, as the code has it. For integers \<open>1 \<le> a < b\<close> and \<open>c \<ge> 1\<close>: in exact arithmetic
  the leakage of \<open>(M, N) = (b, c)\<close> is strictly below that of \<open>(a, c)\<close>, and the leakage of
  \<open>(c, b)\<close> strictly below that of \<open>(c, a)\<close>. In the double arithmetic of the code, with a
  squaring that is monotone on the non-negative doubles, the stored leakage of \<open>(b, c)\<close> is
  at most that of \<open>(a, c)\<close> whenever both constructions succeed, and likewise in \<open>N\<close>; it
  need not be smaller.
\<close>
theorem leakage_monotone:
  assumes "1 \<le> a" and "a < b" and "1 \<le> c"
  shows "(\<exists>p1 p2 q1 q2.
           init exact_arith a c = Inr p1 \<and> init exact_arith b c = Inr p2 \<and>
           leakage_prob p2 < leakage_prob p1 \<and>
           init exact_arith c a = Inr q1 \<and> init exact_arith c b = Inr q2 \<and>
           leakage_prob q2 < leakage_prob q1) \<and>
         ((\<forall>x y. 0 \<le> x \<and> x \<le> y \<longrightarrow> pw x \<le> pw y) \<longrightarrow>
          (\<forall>p1 p2. init (ieee_arith pw) a c = Inr p1 \<and> init (ieee_arith pw) b c = Inr p2 \<longrightarrow>
             leakage_prob p2 \<le> leakage_prob p1) \<and>
          (\<forall>q1 q2. init (ieee_arith pw) c a = Inr q1 \<and> init (ieee_arith pw) c b = Inr q2 \<longrightarrow>
             leakage_prob q2 \<le> leakage_prob q1))"
proof (intro conjI impI allI)
  have b: "1 \<le> b" using assms by simp
  have 1: "(pi / real_of_int (16 * b * c))\<^sup>2 < (pi / real_of_int (16 * a * c))\<^sup>2"
    using assms by (rule leakage_antimono)
  have "(pi / real_of_int (16 * c * b))\<^sup>2 < (pi / real_of_int (16 * c * a))\<^sup>2"
    using 1 by (simp only: mult.commute mult.left_commute)
  then show "\<exists>p1 p2 q1 q2.
           init exact_arith a c = Inr p1 \<and> init exact_arith b c = Inr p2 \<and>
           leakage_prob p2 < leakage_prob p1 \<and>
           init exact_arith c a = Inr q1 \<and> init exact_arith c b = Inr q2 \<and>
           leakage_prob q2 < leakage_prob q1"
    using 1 init_valid [OF assms(1,3)] init_valid [OF b assms(3)]
      init_valid [OF assms(3,1)] init_valid [OF assms(3) b]
    by simp
next
  fix p1 p2
  assume pw: "\<forall>x y. 0 \<le> x \<and> x \<le> y \<longrightarrow> pw x \<le> pw y"
    and p: "init (ieee_arith pw) a c = Inr p1 \<and> init (ieee_arith pw) b c = Inr p2"
  have lo: "1 \<le> 16 * a * c"
  proof -
    have "1 * 1 \<le> a * c" using assms by (intro mult_mono) simp_all
    then show ?thesis by simp
  qed
  have "a * c \<le> b * c" using assms by simp
  then have le: "16 * a * c \<le> 16 * b * c" by simp
  show "leakage_prob p2 \<le> leakage_prob p1"
    using pw lo le p by (intro ieee_leakage_antimono [of pw "16 * a * c" "16 * b * c" a c p1 b c p2]) simp_all
next
  fix q1 q2
  assume pw: "\<forall>x y. 0 \<le> x \<and> x \<le> y \<longrightarrow> pw x \<le> pw y"
    and q: "init (ieee_arith pw) c a = Inr q1 \<and> init (ieee_arith pw) c b = Inr q2"
  have lo: "1 \<le> 16 * c * a"
  proof -
    have "1 * 1 \<le> c * a" using assms by (intro mult_mono) simp_all
    then show ?thesis by simp
  qed
  have "c * a \<le> c * b" using assms by simp
  then have le: "16 * c * a \<le> 16 * c * b" by simp
  show "leakage_prob q2 \<le> leakage_prob q1"
    using pw lo le q by (intro ieee_leakage_antimono [of pw "16 * c * a" "16 * c * b" c a q1 c b q2]) simp_all
qed

lemma rnd_tie_low: "rnd 144115188075855872 = 144115188075855872"
  using rnd_2_57 by simp

lemma rnd_tie_high: "rnd 144115188075855888 = 144115188075855872"
  using rnd_2_57_16 by simp

theorem leakage_monotone_witness:
  "leakage_prob (projr (init exact_arith 4 4)) < leakage_prob (projr (init exact_arith 2 4)) \<and>
   leakage_prob (projr (init (ieee_arith square_rounded) 4 4))
     \<le> leakage_prob (projr (init (ieee_arith square_rounded) 2 4))"
proof -
  have m: "\<forall>x y. 0 \<le> x \<and> x \<le> y \<longrightarrow> square_rounded x \<le> square_rounded y"
    using square_rounded_mono by blast
  have i2: "init (ieee_arith square_rounded) 2 4 = Inr (projr (init (ieee_arith square_rounded) 2 4))"
    by (simp add: init_ieee_ok)
  have i4: "init (ieee_arith square_rounded) 4 4 = Inr (projr (init (ieee_arith square_rounded) 4 4))"
    by (simp add: init_ieee_ok)
  from leakage_monotone [of 2 4 4 square_rounded] m i2 i4
  have "leakage_prob (projr (init (ieee_arith square_rounded) 4 4))
     \<le> leakage_prob (projr (init (ieee_arith square_rounded) 2 4))"
    by simp
  moreover from leakage_monotone [of 2 4 4 square_rounded]
  have "leakage_prob (projr (init exact_arith 4 4)) < leakage_prob (projr (init exact_arith 2 4))"
    by auto
  ultimately show ?thesis by simp
qed

text \<open>
  In double arithmetic \<open>M = 2 ^ 53\<close> and \<open>M = 2 ^ 53 + 1\<close> with \<open>N = 1\<close> both construct, and
  the second leakage is not below the first: \<open>16 M N\<close> converts to the same double.
\<close>
theorem leakage_tie_counterexample:
  "\<not> isl (init (ieee_arith square_rounded) (2 ^ 53) 1) \<and>
   \<not> isl (init (ieee_arith square_rounded) (2 ^ 53 + 1) 1) \<and>
   \<not> leakage_prob (projr (init (ieee_arith square_rounded) (2 ^ 53 + 1) 1))
       < leakage_prob (projr (init (ieee_arith square_rounded) (2 ^ 53) 1))"
  by (simp add: init_ieee_ok rnd_tie_low rnd_tie_high)

text \<open>
  Claim C6, as the code has it. The construction checks no range and knows no
  configuration error. With \<open>M = 0\<close> it fails with the \<open>ZeroDivisionError\<close> of its first
  division, and with \<open>N = 0\<close> and a non-zero \<open>M\<close> in double range with that of its second.
  For non-zero \<open>M\<close> and \<open>N\<close> with \<open>16 |M N| < 2 ^ 1023\<close>, negative ones too, it succeeds and
  stores \<open>M\<close> and \<open>N\<close> as given. When \<open>4 |M|\<close> is \<open>2 ^ 1024\<close> or more, the conversion of
  the first divisor raises \<open>OverflowError\<close>.
\<close>
theorem init_no_validation:
  "init (ieee_arith pw) 0 N = Inl ZeroDivisionError \<and>
   (M \<noteq> 0 \<and> 4 * \<bar>M\<bar> < 2 ^ 1023 \<longrightarrow> init (ieee_arith pw) M 0 = Inl ZeroDivisionError) \<and>
   (M \<noteq> 0 \<and> N \<noteq> 0 \<and> 16 * \<bar>M * N\<bar> < 2 ^ 1023 \<longrightarrow>
      (\<exists>p. init (ieee_arith pw) M N = Inr p \<and> self_M p = M \<and> self_N p = N)) \<and>
   (2 ^ 1024 \<le> 4 * \<bar>M\<bar> \<longrightarrow> init (ieee_arith pw) M N = Inl OverflowError)"
proof (intro conjI impI)
  show "init (ieee_arith pw) 0 N = Inl ZeroDivisionError"
    by (simp add: init_def float_div_ieee_0)
next
  assume m: "M \<noteq> 0 \<and> 4 * \<bar>M\<bar> < 2 ^ 1023"
  then have a0: "4 * M \<noteq> 0" and a: "\<bar>4 * M\<bar> < 2 ^ 1023" by (simp_all add: abs_mult)
  show "init (ieee_arith pw) M 0 = Inl ZeroDivisionError"
    unfolding init_def float_div_ieee_ok [OF a0 a]
    by (simp add: float_div_ieee_0)
next
  assume "M \<noteq> 0 \<and> N \<noteq> 0 \<and> 16 * \<bar>M * N\<bar> < 2 ^ 1023"
  then have "M \<noteq> 0" and "N \<noteq> 0" and "16 * \<bar>M * N\<bar> < 2 ^ 1023" by simp_all
  then show "\<exists>p. init (ieee_arith pw) M N = Inr p \<and> self_M p = M \<and> self_N p = N"
    by (simp add: init_ieee_ok)
next
  assume "2 ^ 1024 \<le> 4 * \<bar>M\<bar>"
  then have "2 ^ 1024 \<le> \<bar>4 * M\<bar>" by (simp add: abs_mult)
  then have "float_div (ieee_arith pw) (np_pi (ieee_arith pw)) (4 * M) = Inl OverflowError"
    by (rule float_div_ieee_overflow)
  then show "init (ieee_arith pw) M N = Inl OverflowError"
    by (simp add: init_def)
qed

theorem init_no_validation_witness:
  "init (ieee_arith square_rounded) 0 4 = Inl ZeroDivisionError \<and>
   init (ieee_arith square_rounded) 4 0 = Inl ZeroDivisionError \<and>
   self_M (projr (init (ieee_arith square_rounded) (- 3) 4)) = - 3 \<and>
   self_N (projr (init (ieee_arith square_rounded) (- 3) 4)) = 4 \<and>
   init (ieee_arith square_rounded) (10 ^ 400) 4 = Inl OverflowError"
proof -
  have a: "init (ieee_arith square_rounded) 0 4 = Inl ZeroDivisionError"
    using init_no_validation [of square_rounded 4 0] by (rule conjunct1)
  have b: "init (ieee_arith square_rounded) 4 0 = Inl ZeroDivisionError"
    using init_no_validation [of square_rounded 0 4, THEN conjunct2, THEN conjunct1]
    by simp
  have "\<exists>p. init (ieee_arith square_rounded) (- 3) 4 = Inr p \<and> self_M p = - 3 \<and> self_N p = 4"
    using init_no_validation [of square_rounded 4 "- 3", THEN conjunct2, THEN conjunct2,
        THEN conjunct1]
    by simp
  then have c: "self_M (projr (init (ieee_arith square_rounded) (- 3) 4)) = - 3 \<and>
      self_N (projr (init (ieee_arith square_rounded) (- 3) 4)) = 4"
    by auto
  have d: "init (ieee_arith square_rounded) (10 ^ 400) 4 = Inl OverflowError"
    using init_no_validation [of square_rounded 4 "10 ^ 400", THEN conjunct2, THEN conjunct2,
        THEN conjunct2]
    by simp
  show ?thesis using a b c d by simp
qed

text \<open>With \<open>M = - 1\<close> the construction succeeds.\<close>
theorem init_negative_counterexample:
  "\<not> isl (init (ieee_arith square_rounded) (- 1) 4) \<and>
   self_M (projr (init (ieee_arith square_rounded) (- 1) 4)) = - 1"
  by (simp add: init_ieee_ok)

text \<open>
  Claim C8, as the code has it. For \<open>M \<ge> 1\<close> and \<open>N \<ge> 1\<close>, in exact arithmetic the stored
  leakage is \<open>(pi / (16 M N))\<^sup>2\<close>, which is \<open>(theta_M * theta_N / pi)\<^sup>2\<close>. In the double
  arithmetic of the code, when \<open>16 M N < 2 ^ 1023\<close>, the construction succeeds and stores the
  double evaluation of that formula: the square, by the C library, of the rounded quotient
  of \<open>np.pi\<close> by the double nearest to \<open>16 M N\<close>. In both it is a field of the constructed
  object, computed from \<open>M\<close> and \<open>N\<close> alone, before any decision of Bob or any evolution.
\<close>
theorem leakage_closed_form:
  assumes "1 \<le> M" and "1 \<le> N"
  shows "(\<exists>p. init exact_arith M N = Inr p \<and>
            leakage_prob p = (pi / (16 * real_of_int M * real_of_int N))\<^sup>2 \<and>
            leakage_prob p = (theta_M p * theta_N p / pi)\<^sup>2) \<and>
         (16 * M * N < 2 ^ 1023 \<longrightarrow>
            (\<exists>p. init (ieee_arith pw) M N = Inr p \<and>
               leakage_prob p =
                 pw (rnd (np_pi (ieee_arith pw) / rnd (real_of_int (16 * M * N))))))"
proof (intro conjI impI)
  show "\<exists>p. init exact_arith M N = Inr p \<and>
            leakage_prob p = (pi / (16 * real_of_int M * real_of_int N))\<^sup>2 \<and>
            leakage_prob p = (theta_M p * theta_N p / pi)\<^sup>2"
    using assms by (simp add: init_exact_eq power2_eq_square)
next
  assume r: "16 * M * N < 2 ^ 1023"
  have "0 \<le> M * N" using assms by simp
  then have "16 * \<bar>M * N\<bar> < 2 ^ 1023" using r by simp
  moreover have "M \<noteq> 0" and "N \<noteq> 0" using assms by simp_all
  ultimately show "\<exists>p. init (ieee_arith pw) M N = Inr p \<and>
      leakage_prob p = pw (rnd (np_pi (ieee_arith pw) / rnd (real_of_int (16 * M * N))))"
    by (simp add: init_ieee_ok)
qed

theorem leakage_closed_form_witness:
  "leakage_prob (projr (init exact_arith 4 4)) = (pi / (16 * 4 * 4))\<^sup>2 \<and>
   leakage_prob (projr (init (ieee_arith square_rounded) 4 4)) =
     square_rounded (rnd (np_pi (ieee_arith square_rounded) / rnd 256))"
  using leakage_closed_form [of 4 4 square_rounded] by auto

text \<open>With \<open>M = N = 10 ^ 200\<close> the third division raises and no leakage is stored.\<close>
theorem leakage_overflow_counterexample:
  "init (ieee_arith square_rounded) (10 ^ 200) (10 ^ 200) = Inl OverflowError"
proof -
  have a0: "4 * (10 ^ 200 :: int) \<noteq> 0" and a: "\<bar>4 * (10 ^ 200 :: int)\<bar> < 2 ^ 1023"
    by simp_all
  have "(2 :: int) ^ 1024 \<le> \<bar>16 * 10 ^ 200 * 10 ^ 200\<bar>" by simp
  then have o: "float_div (ieee_arith square_rounded) (np_pi (ieee_arith square_rounded))
      (16 * 10 ^ 200 * 10 ^ 200) = Inl OverflowError"
    by (rule float_div_ieee_overflow)
  show ?thesis
    unfolding init_def float_div_ieee_ok [OF a0 a] o
    by simp
qed

subsection \<open>Analysis of the counts: range of the percentages\<close>





subsection \<open>Circuits and trajectories\<close>

lemma gates_of_append: "gates_of (qa @ qb) = gates_of qa @ gates_of qb"
  by (induction qa rule: gates_of.induct) simp_all

lemma length_range_py: "length (range_py n) = nat n"
  by (simp add: range_py_def)

lemma range_py_split:
  assumes "1 \<le> n"
  shows "range_py n = map int [0..<nat (n div 2)] @ [n div 2] @ map int [Suc (nat (n div 2))..<nat n]"
proof -
  have k: "nat (n div 2) < nat n" using assms by simp
  have "[0..<nat n] = [0..<nat (n div 2)] @ [nat (n div 2)] @ [Suc (nat (n div 2))..<nat n]"
    using k by (metis append_Cons append_Nil less_imp_le_nat upt_add_eq_append upt_conv_Cons zero_le le_add_diff_inverse)
  then show ?thesis using assms by (simp add: range_py_def)
qed

lemma fst_ry_steps:
  "fst (foldl (ry_step t) st xs) = fst st @ replicate (length xs) (RY t)"
  by (induction xs rule: rev_induct) (simp_all add: ry_step_def Let_def replicate_append_same)

lemma fst_inner_steps_plain:
  "self_N p div 2 \<notin> set xs \<or> \<not> b \<Longrightarrow>
   fst (foldl (inner_step p b) st xs) = fst st @ replicate (length xs) (RY (2 * theta_N p))"
  by (induction xs rule: rev_induct) (auto simp add: inner_step_def Let_def replicate_append_same)

lemma gates_outer: "gates_of (foldl (outer_cycle p) qc xs) = gates_of qc @ replicate (length xs) (RY (2 * theta_M p))"
  by (induction xs rule: rev_induct) (simp_all add: outer_cycle_def gates_of_append replicate_append_same)

lemma gates_ret_inner: "gates_of (foldl (ret_inner_cycle p) qc xs) = gates_of qc @ replicate (length xs) (RY (- 2 * theta_N p))"
  by (induction xs rule: rev_induct) (simp_all add: ret_inner_cycle_def gates_of_append replicate_append_same)

lemma gates_ret_outer: "gates_of (foldl (ret_outer_cycle p) qc xs) = gates_of qc @ replicate (length xs) (RY (- 2 * theta_M p))"
  by (induction xs rule: rev_induct) (simp_all add: ret_outer_cycle_def gates_of_append replicate_append_same)

lemma fst_inner_step:
  "fst (inner_step p b st c) =
     fst st @ RY (2 * theta_N p) # (if c = self_N p div 2 \<and> b then [XGate] else [])"
  by (simp add: inner_step_def Let_def)

lemma gates_inner_cycle:
  "gates_of (inner_cycle p b qc c) =
     gates_of qc @ RY (2 * theta_N p) # (if c = self_N p div 2 \<and> b then [XGate] else [])"
  by (simp add: inner_cycle_def Let_def gates_of_append)

lemma gates_inner:
  "fst st = gates_of qc \<Longrightarrow>
   fst (foldl (inner_step p b) st xs) = gates_of (foldl (inner_cycle p b) qc xs)"
  by (induction xs rule: rev_induct) (simp_all only: foldl_append foldl_Nil foldl_Cons fst_inner_step gates_inner_cycle)


lemma fst_inner_steps:
  assumes "1 \<le> self_N p"
  shows "fst (foldl (inner_step p b) st (range_py (self_N p))) =
           fst st @ replicate (Suc (nat (self_N p div 2))) (RY (2 * theta_N p)) @
           (if b then [XGate] else []) @
           replicate (nat (self_N p) - Suc (nat (self_N p div 2))) (RY (2 * theta_N p))"
proof -
  let ?k = "self_N p div 2"
  have lo: "?k \<notin> set (map int [0..<nat ?k])" by auto
  have hi: "?k \<notin> set (map int [Suc (nat ?k)..<nat (self_N p)])" by auto
  show ?thesis
    by (simp add: range_py_split [OF assms] fst_inner_steps_plain [OF disjI1 [OF lo]]
        fst_inner_steps_plain [OF disjI1 [OF hi]] fst_inner_step replicate_append_same)
qed

lemma length_ry_steps:
  "length (snd (foldl (ry_step t) st xs)) = length (snd st) + length xs"
  by (induction xs rule: rev_induct) (simp_all add: ry_step_def Let_def)

lemma length_inner_steps:
  "length (snd (foldl (inner_step p b) st xs)) = length (snd st) + length xs"
  by (induction xs rule: rev_induct) (simp_all add: inner_step_def Let_def)

lemma last_ry_step: "last (snd (ry_step t st c)) = from_instruction (fst (ry_step t st c))"
  by (simp add: ry_step_def Let_def)

lemma last_inner_step:
  "last (snd (inner_step p b st c)) = from_instruction (fst (inner_step p b st c))"
  by (simp add: inner_step_def Let_def)

lemma last_ry_steps:
  "last (snd st) = from_instruction (fst st) \<Longrightarrow>
   last (snd (foldl (ry_step t) st xs)) = from_instruction (fst (foldl (ry_step t) st xs))"
  by (induction xs rule: rev_induct) (simp_all only: foldl_append foldl_Nil foldl_Cons last_ry_step)

lemma last_inner_steps:
  "last (snd st) = from_instruction (fst st) \<Longrightarrow>
   last (snd (foldl (inner_step p b) st xs)) =
     from_instruction (fst (foldl (inner_step p b) st xs))"
  by (induction xs rule: rev_induct) (simp_all only: foldl_append foldl_Nil foldl_Cons last_inner_step)

lemma last_evolve: "last (get_state_evolution p b) = from_instruction (fst (evolve p b))"
  unfolding get_state_evolution_def evolve_def Let_def
  by (intro last_ry_steps last_inner_steps) simp

lemma length_evolve:
  "length (get_state_evolution p b) = 2 * nat (self_M p) + 2 * nat (self_N p) + 1"
  by (simp add: get_state_evolution_def evolve_def Let_def length_ry_steps length_inner_steps
      length_range_py)

lemma fst_evolve_create:
  "fst (evolve p b) = gates_of (create_circuit p b m)"
proof -
  have "fst (evolve p b) = gates_of (create_circuit p b False)"
    by (simp add: evolve_def create_circuit_def Let_def fst_ry_steps gates_ret_outer
        gates_ret_inner gates_inner [where qc = "foldl (outer_cycle p) [] (range_py (self_M p))"]
        gates_outer)
  also have "\<dots> = gates_of (create_circuit p b m)"
    by (simp add: create_circuit_def Let_def gates_of_append)
  finally show ?thesis .
qed

lemma apply_gate_norm:
  "prob_H (apply_gate s g) + prob_V (apply_gate s g) = prob_H s + prob_V s"
proof (cases s)
  case (Pair a0 a1)
  show ?thesis
  proof (cases g)
    case (RY t)
    have "(cos (t / 2))\<^sup>2 + (sin (t / 2))\<^sup>2 = 1" by simp
    then have e: "(c * x - d * y)\<^sup>2 + (d * x + c * y)\<^sup>2 = x\<^sup>2 + y\<^sup>2"
      if "c = cos (t / 2)" "d = sin (t / 2)" for c d x y :: real
    proof -
      have "(c * x - d * y)\<^sup>2 + (d * x + c * y)\<^sup>2 = (c\<^sup>2 + d\<^sup>2) * (x\<^sup>2 + y\<^sup>2)"
        by (simp add: power2_eq_square algebra_simps)
      then show ?thesis using that \<open>(cos (t / 2))\<^sup>2 + (sin (t / 2))\<^sup>2 = 1\<close> by simp
    qed
    have "prob_H (apply_gate s g) + prob_V (apply_gate s g) =
          ((cos (t / 2) * Re a0 - sin (t / 2) * Re a1)\<^sup>2 + (sin (t / 2) * Re a0 + cos (t / 2) * Re a1)\<^sup>2) +
          ((cos (t / 2) * Im a0 - sin (t / 2) * Im a1)\<^sup>2 + (sin (t / 2) * Im a0 + cos (t / 2) * Im a1)\<^sup>2)"
      by (simp add: Pair RY prob_H_def prob_V_def cmod_power2)
    also have "\<dots> = ((Re a0)\<^sup>2 + (Re a1)\<^sup>2) + ((Im a0)\<^sup>2 + (Im a1)\<^sup>2)"
      by (simp only: e [OF refl refl])
    also have "\<dots> = prob_H s + prob_V s"
      by (simp add: Pair prob_H_def prob_V_def cmod_power2)
    finally show ?thesis .
  next
    case XGate
    then show ?thesis by (simp add: Pair prob_H_def prob_V_def)
  qed
qed

lemma from_instruction_snoc:
  "from_instruction (qc @ [g]) = apply_gate (from_instruction qc) g"
  by (simp add: from_instruction_def)

lemma from_instruction_norm: "prob_H (from_instruction qc) + prob_V (from_instruction qc) = 1"
proof (induction qc rule: rev_induct)
  case Nil
  show ?case by (simp add: from_instruction_def prob_H_def prob_V_def)
next
  case (snoc g qc)
  then show ?case by (simp only: from_instruction_snoc apply_gate_norm)
qed

lemma set_ry_step:
  "set (snd (ry_step t st c)) = insert (from_instruction (fst (ry_step t st c))) (set (snd st))"
  by (simp add: ry_step_def Let_def)

lemma set_inner_step:
  "set (snd (inner_step p b st c)) =
     insert (from_instruction (fst (inner_step p b st c))) (set (snd st))"
  by (simp add: inner_step_def Let_def)

lemma norm_ry_steps:
  "(\<And>s. s \<in> set (snd st) \<Longrightarrow> prob_H s + prob_V s = 1) \<Longrightarrow>
   s \<in> set (snd (foldl (ry_step t) st xs)) \<Longrightarrow> prob_H s + prob_V s = 1"
proof (induction xs arbitrary: s rule: rev_induct)
  case Nil
  then show ?case by simp
next
  case (snoc x xs)
  from snoc.prems(2) have "s = from_instruction (fst (ry_step t (foldl (ry_step t) st xs) x))
      \<or> s \<in> set (snd (foldl (ry_step t) st xs))"
    by (simp only: foldl_append foldl_Cons foldl_Nil set_ry_step insert_iff)
  then show ?case using snoc.IH snoc.prems(1) from_instruction_norm by blast
qed

lemma norm_inner_steps:
  "(\<And>s. s \<in> set (snd st) \<Longrightarrow> prob_H s + prob_V s = 1) \<Longrightarrow>
   s \<in> set (snd (foldl (inner_step p b) st xs)) \<Longrightarrow> prob_H s + prob_V s = 1"
proof (induction xs arbitrary: s rule: rev_induct)
  case Nil
  then show ?case by simp
next
  case (snoc x xs)
  from snoc.prems(2) have "s = from_instruction (fst (inner_step p b (foldl (inner_step p b) st xs) x))
      \<or> s \<in> set (snd (foldl (inner_step p b) st xs))"
    by (simp only: foldl_append foldl_Cons foldl_Nil set_inner_step insert_iff)
  then show ?case using snoc.IH snoc.prems(1) from_instruction_norm by blast
qed

lemma norm_evolve:
  assumes "s \<in> set (get_state_evolution p b)"
  shows "prob_H s + prob_V s = 1"
proof -
  let ?st0 = "([], [from_instruction []]) :: evolution"
  let ?st1 = "foldl (ry_step (2 * theta_M p)) ?st0 (range_py (self_M p))"
  let ?st2 = "foldl (inner_step p b) ?st1 (range_py (self_N p))"
  let ?st3 = "foldl (ry_step (- 2 * theta_N p)) ?st2 (range_py (self_N p))"
  let ?st4 = "foldl (ry_step (- 2 * theta_M p)) ?st3 (range_py (self_M p))"
  have 0: "prob_H s + prob_V s = 1" if "s \<in> set (snd ?st0)" for s
    using that from_instruction_norm [of "[]"] by simp
  have 1: "prob_H s + prob_V s = 1" if "s \<in> set (snd ?st1)" for s
    using norm_ry_steps [OF 0 that] .
  have 2: "prob_H s + prob_V s = 1" if "s \<in> set (snd ?st2)" for s
    using norm_inner_steps [OF 1 that] .
  have 3: "prob_H s + prob_V s = 1" if "s \<in> set (snd ?st3)" for s
    using norm_ry_steps [OF 2 that] .
  have 4: "prob_H s + prob_V s = 1" if "s \<in> set (snd ?st4)" for s
    using norm_ry_steps [OF 3 that] .
  from assms have "s \<in> set (snd ?st4)"
    by (simp add: get_state_evolution_def evolve_def Let_def)
  then show ?thesis by (rule 4)
qed

subsection \<open>Real rotations\<close>

lemma apply_RY_rot: "apply_gate (rot phi) (RY t) = rot (phi + t / 2)"
  by (simp add: rot_def cos_add sin_add algebra_simps)

lemma apply_X_rot: "apply_gate (rot phi) XGate = rot (pi / 2 - phi)"
  by (simp add: rot_def cos_diff sin_diff)

lemma foldl_RY_rot:
  "foldl apply_gate (rot phi) (replicate n (RY t)) = rot (phi + real n * t / 2)"
  by (induction n arbitrary: phi) (simp_all add: apply_RY_rot add_divide_distrib algebra_simps)

lemma ket0_rot: "((1, 0) :: statevector) = rot 0"
  by (simp add: rot_def)

lemma prob_H_rot: "prob_H (rot phi) = (cos phi)\<^sup>2"
  by (simp add: prob_H_def rot_def)

lemma prob_V_rot: "prob_V (rot phi) = (sin phi)\<^sup>2"
  by (simp add: prob_V_def rot_def)

lemma final_pass:
  "last (get_state_evolution p False) = (1, 0)"
proof -
  have g: "fst (evolve p False) =
      replicate (nat (self_M p)) (RY (2 * theta_M p)) @
      replicate (nat (self_N p)) (RY (2 * theta_N p)) @
      replicate (nat (self_N p)) (RY (- 2 * theta_N p)) @
      replicate (nat (self_M p)) (RY (- 2 * theta_M p))"
    by (simp add: evolve_def Let_def fst_ry_steps fst_inner_steps_plain length_range_py)
  have "from_instruction (fst (evolve p False)) = rot 0"
    unfolding g from_instruction_def ket0_rot foldl_append foldl_RY_rot
    by (rule arg_cong [where f = rot]) (simp add: field_simps)
  then show ?thesis by (simp add: last_evolve rot_def)
qed

lemma final_block:
  assumes "1 \<le> self_N p"
  shows "last (get_state_evolution p True) =
           rot (pi / 2 - 2 * real (nat (self_M p)) * theta_M p
                 - 2 * real (Suc (nat (self_N p div 2))) * theta_N p)"
proof -
  let ?k = "Suc (nat (self_N p div 2))"
  have k: "?k \<le> nat (self_N p)" using assms by simp
  have g: "fst (evolve p True) =
      replicate (nat (self_M p)) (RY (2 * theta_M p)) @
      replicate ?k (RY (2 * theta_N p)) @ [XGate] @
      replicate (nat (self_N p) - ?k) (RY (2 * theta_N p)) @
      replicate (nat (self_N p)) (RY (- 2 * theta_N p)) @
      replicate (nat (self_M p)) (RY (- 2 * theta_M p))"
    by (simp add: evolve_def Let_def fst_ry_steps fst_inner_steps [OF assms] length_range_py)
  have r: "real (nat (self_N p) - ?k) = real (nat (self_N p)) - real ?k"
    using k by (simp only: of_nat_diff)
  have "from_instruction (fst (evolve p True)) =
           rot (pi / 2 - 2 * real (nat (self_M p)) * theta_M p - 2 * real ?k * theta_N p)"
    unfolding g from_instruction_def ket0_rot foldl_append foldl_RY_rot foldl_Cons foldl_Nil apply_X_rot r
    by (rule arg_cong [where f = rot]) (simp add: field_simps)
  then show ?thesis by (simp only: last_evolve)
qed


lemma gates_create_circuit:
  assumes "1 \<le> self_N p"
  shows "gates_of (create_circuit p b m) =
      replicate (nat (self_M p)) (RY (2 * theta_M p)) @
      replicate (Suc (nat (self_N p div 2))) (RY (2 * theta_N p)) @
      (if b then [XGate] else []) @
      replicate (nat (self_N p) - Suc (nat (self_N p div 2))) (RY (2 * theta_N p)) @
      replicate (nat (self_N p)) (RY (- 2 * theta_N p)) @
      replicate (nat (self_M p)) (RY (- 2 * theta_M p))"
proof -
  have "gates_of (create_circuit p b m) = fst (evolve p b)"
    by (rule fst_evolve_create [symmetric])
  also have "\<dots> = replicate (nat (self_M p)) (RY (2 * theta_M p)) @
      replicate (Suc (nat (self_N p div 2))) (RY (2 * theta_N p)) @
      (if b then [XGate] else []) @
      replicate (nat (self_N p) - Suc (nat (self_N p div 2))) (RY (2 * theta_N p)) @
      replicate (nat (self_N p)) (RY (- 2 * theta_N p)) @
      replicate (nat (self_M p)) (RY (- 2 * theta_M p))"
    by (simp add: evolve_def Let_def fst_ry_steps fst_inner_steps [OF assms] length_range_py)
  finally show ?thesis .
qed


lemma apply_RY_RY: "apply_gate (apply_gate s (RY t)) (RY u) = apply_gate s (RY (t + u))"
  by (cases s) (simp add: add_divide_distrib cos_add sin_add algebra_simps)

lemma apply_RY_0: "apply_gate s (RY 0) = s"
  by (cases s) simp

lemma foldl_RY: "foldl apply_gate s (replicate n (RY t)) = apply_gate s (RY (real n * t))"
  by (induction n arbitrary: s) (simp_all add: apply_RY_0 apply_RY_RY algebra_simps)

lemma pass_gates_identity:
  assumes "1 \<le> self_N p"
  shows "foldl apply_gate s (gates_of (create_circuit p False m)) = s"
proof -
  have "foldl apply_gate s (gates_of (create_circuit p False m)) =
        apply_gate s (RY (real (nat (self_M p)) * (2 * theta_M p)
           + real (Suc (nat (self_N p div 2))) * (2 * theta_N p)
           + real (nat (self_N p) - Suc (nat (self_N p div 2))) * (2 * theta_N p)
           + real (nat (self_N p)) * (- 2 * theta_N p)
           + real (nat (self_M p)) * (- 2 * theta_M p)))"
    by (simp only: gates_create_circuit [OF assms] if_False append_Nil foldl_append foldl_RY
        apply_RY_RY)
  also have "real (nat (self_M p)) * (2 * theta_M p)
           + real (Suc (nat (self_N p div 2))) * (2 * theta_N p)
           + real (nat (self_N p) - Suc (nat (self_N p div 2))) * (2 * theta_N p)
           + real (nat (self_N p)) * (- 2 * theta_N p)
           + real (nat (self_M p)) * (- 2 * theta_M p) = 0"
  proof -
    have "Suc (nat (self_N p div 2)) \<le> nat (self_N p)" using assms by simp
    then have "real (nat (self_N p) - Suc (nat (self_N p div 2)))
        = real (nat (self_N p)) - real (Suc (nat (self_N p div 2)))"
      by (simp only: of_nat_diff)
    then show ?thesis by (simp add: algebra_simps)
  qed
  finally show ?thesis by (simp only: apply_RY_0)
qed


lemma cos_3pi8_sq: "(cos (3 * pi / 8))\<^sup>2 = (2 - sqrt 2) / 4"
proof -
  have "cos (2 * (3 * pi / 8)) = 2 * (cos (3 * pi / 8))\<^sup>2 - 1"
    by (rule cos_double_cos)
  moreover have "cos (2 * (3 * pi / 8)) = cos (pi - pi / 4)"
    by (rule arg_cong [where f = cos]) simp
  moreover have "cos (pi - pi / 4) = - (sqrt 2 / 2)"
    by (simp only: cos_pi_minus cos_45)
  ultimately show ?thesis by (simp add: field_simps)
qed

lemma sin_3pi8_sq: "(sin (3 * pi / 8))\<^sup>2 = (2 + sqrt 2) / 4"
proof -
  have "(sin (3 * pi / 8))\<^sup>2 = 1 - (cos (3 * pi / 8))\<^sup>2"
    by (rule sin_squared_eq)
  also have "\<dots> = 1 - (2 - sqrt 2) / 4"
    by (simp only: cos_3pi8_sq)
  also have "\<dots> = (2 + sqrt 2) / 4"
    by (simp add: field_simps)
  finally show ?thesis .
qed

lemma sqrt2_less: "sqrt 2 < 3 / 2"
  by (rule real_less_lsqrt) (simp_all add: power2_eq_square)

lemma leakage_4_4_small: "(pi / 256)\<^sup>2 < 1 / 4096"
proof -
  have "pi / 256 < 4 / 256" using pi_less_4 by simp
  moreover have "0 \<le> pi / 256" by simp
  ultimately have "(pi / 256)\<^sup>2 < (4 / 256)\<^sup>2" by (rule power_strict_mono) simp
  then show ?thesis by (simp add: power2_eq_square)
qed

lemma final_block_4_4:
  "last (get_state_evolution \<lparr>self_M = 4, self_N = 4, theta_M = pi / 16, theta_N = pi / 16,
      leakage_prob = (pi / 256)\<^sup>2\<rparr> True) = rot (- (3 * pi / 8))"
proof -
  let ?p = "\<lparr>self_M = 4, self_N = 4, theta_M = pi / 16, theta_N = pi / 16,
      leakage_prob = (pi / 256)\<^sup>2\<rparr>"
  have N: "1 \<le> self_N ?p" by simp
  show ?thesis
    unfolding final_block [OF N]
    by (rule arg_cong [where f = rot]) simp
qed


lemma length_gates_create_circuit:
  assumes "1 \<le> self_N p"
  shows "length (gates_of (create_circuit p b m)) =
           2 * nat (self_M p) + 2 * nat (self_N p) + (if b then 1 else 0)"
proof -
  have "Suc (nat (self_N p div 2)) \<le> nat (self_N p)" using assms by simp
  then show ?thesis
    unfolding gates_create_circuit [OF assms] length_append length_replicate
    by (cases b) (simp_all only: if_True if_False list.size, arith+)
qed


lemma init_4_4:
  "init exact_arith 4 4 = Inr \<lparr>self_M = 4, self_N = 4, theta_M = pi / 16, theta_N = pi / 16,
      leakage_prob = (pi / 256)\<^sup>2\<rparr>"
  by (simp add: init_exact_eq)

text \<open>
  Claim C3. For \<open>M \<ge> 1\<close> and \<open>N \<ge> 1\<close> the gates of the circuit that \<open>create_circuit\<close>
  builds are: \<open>M\<close> rotations by \<open>2 * theta_M\<close>; then the \<open>N\<close> inner rotations by
  \<open>2 * theta_N\<close>, of which the first \<open>N div 2 + 1\<close> (indices \<open>0\<close> to \<open>N div 2\<close>) come
  before the place of the flip and the other \<open>N - (N div 2 + 1)\<close> after it, the flip being
  there exactly when Bob blocks; then \<open>N\<close> rotations by \<open>- 2 * theta_N\<close> and \<open>M\<close> rotations by
  \<open>- 2 * theta_M\<close>, with no flip among them. With "pass" the sequence has no flip at all.
  In exact arithmetic the object exists for all such \<open>M\<close>, \<open>N\<close> and its angles are
  \<open>pi / (4 M)\<close> and \<open>pi / (4 N)\<close>; the sequence is the same for the object of any
  arithmetic, the code's doubles included, whenever the construction returns one.
\<close>
theorem create_circuit_gate_sequence:
  assumes "1 \<le> M" and "1 \<le> N"
  shows "(\<exists>p. init exact_arith M N = Inr p \<and>
           gates_of (create_circuit p bob_blocks measure_flag) =
             replicate (nat M) (RY (2 * theta_M p)) @
             replicate (Suc (nat (N div 2))) (RY (2 * theta_N p)) @
             (if bob_blocks then [XGate] else []) @
             replicate (nat N - Suc (nat (N div 2))) (RY (2 * theta_N p)) @
             replicate (nat N) (RY (- 2 * theta_N p)) @
             replicate (nat M) (RY (- 2 * theta_M p)) \<and>
           theta_M p = pi / (4 * real_of_int M) \<and> theta_N p = pi / (4 * real_of_int N)) \<and>
         (\<forall>q. init ar M N = Inr q \<longrightarrow>
           gates_of (create_circuit q bob_blocks measure_flag) =
             replicate (nat M) (RY (2 * theta_M q)) @
             replicate (Suc (nat (N div 2))) (RY (2 * theta_N q)) @
             (if bob_blocks then [XGate] else []) @
             replicate (nat N - Suc (nat (N div 2))) (RY (2 * theta_N q)) @
             replicate (nat N) (RY (- 2 * theta_N q)) @
             replicate (nat M) (RY (- 2 * theta_M q)))"
proof (intro conjI allI impI)
  let ?p = "\<lparr>self_M = M, self_N = N, theta_M = pi / real_of_int (4 * M),
                theta_N = pi / real_of_int (4 * N),
                leakage_prob = (pi / real_of_int (16 * M * N)) ^ 2\<rparr>"
  have N: "1 \<le> self_N ?p" using assms by simp
  show "\<exists>p. init exact_arith M N = Inr p \<and>
           gates_of (create_circuit p bob_blocks measure_flag) =
             replicate (nat M) (RY (2 * theta_M p)) @
             replicate (Suc (nat (N div 2))) (RY (2 * theta_N p)) @
             (if bob_blocks then [XGate] else []) @
             replicate (nat N - Suc (nat (N div 2))) (RY (2 * theta_N p)) @
             replicate (nat N) (RY (- 2 * theta_N p)) @
             replicate (nat M) (RY (- 2 * theta_M p)) \<and>
           theta_M p = pi / (4 * real_of_int M) \<and> theta_N p = pi / (4 * real_of_int N)"
    using gates_create_circuit [OF N, of bob_blocks measure_flag] init_valid [OF assms]
    by simp
next
  fix q
  assume q: "init ar M N = Inr q"
  have f: "self_M q = M" "self_N q = N" using init_fields [OF q] by simp_all
  have N: "1 \<le> self_N q" using assms f by simp
  show "gates_of (create_circuit q bob_blocks measure_flag) =
             replicate (nat M) (RY (2 * theta_M q)) @
             replicate (Suc (nat (N div 2))) (RY (2 * theta_N q)) @
             (if bob_blocks then [XGate] else []) @
             replicate (nat N - Suc (nat (N div 2))) (RY (2 * theta_N q)) @
             replicate (nat N) (RY (- 2 * theta_N q)) @
             replicate (nat M) (RY (- 2 * theta_M q))"
    using gates_create_circuit [OF N, of bob_blocks measure_flag] by (simp only: f)
qed

text \<open>
  The sequence for \<open>M = 1\<close>, \<open>N = 5\<close> (midpoint index 2) and for \<open>N = 1\<close>, both blocking, the
  latter also in double arithmetic.
\<close>
theorem create_circuit_gate_sequence_witness:
  "gates_of (create_circuit (projr (init exact_arith 1 5)) True True) =
     [RY (pi / 2), RY (pi / 10), RY (pi / 10), RY (pi / 10), XGate, RY (pi / 10), RY (pi / 10),
      RY (- (pi / 10)), RY (- (pi / 10)), RY (- (pi / 10)), RY (- (pi / 10)), RY (- (pi / 10)),
      RY (- (pi / 2))] \<and>
   gates_of (create_circuit (projr (init exact_arith 1 1)) True False) =
     [RY (pi / 2), RY (pi / 2), XGate, RY (- (pi / 2)), RY (- (pi / 2))] \<and>
   (let q = projr (init (ieee_arith square_rounded) 1 1)
    in gates_of (create_circuit q True False) =
         [RY (2 * theta_M q), RY (2 * theta_N q), XGate, RY (- 2 * theta_N q),
          RY (- 2 * theta_M q)])"
proof -
  have i: "init (ieee_arith square_rounded) 1 1 = Inr (projr (init (ieee_arith square_rounded) 1 1))"
    by (simp add: init_ieee_ok)
  show ?thesis
    using create_circuit_gate_sequence [of 1 5 True True exact_arith]
      create_circuit_gate_sequence [of 1 1 True False "ieee_arith square_rounded"] i
    by (auto simp add: numeral_eq_Suc Let_def)
qed

text \<open>
  Claim C9. For \<open>M \<ge> 1\<close> and \<open>N \<ge> 1\<close> the gate sequence of the "pass" scenario maps every
  state to itself, and the last entry of the trajectory is the initial state: amplitude
  \<open>1\<close> on basis state 0 and \<open>0\<close> on basis state 1, exactly. This holds for the object of
  exact arithmetic and for every object that the construction returns in any arithmetic.
\<close>
theorem pass_is_identity:
  assumes "1 \<le> M" and "1 \<le> N"
  shows "(\<exists>p. init exact_arith M N = Inr p \<and>
           foldl apply_gate s (gates_of (create_circuit p False measure_flag)) = s \<and>
           last (get_state_evolution p False) = (1, 0)) \<and>
         (\<forall>q. init ar M N = Inr q \<longrightarrow>
           foldl apply_gate s (gates_of (create_circuit q False measure_flag)) = s \<and>
           last (get_state_evolution q False) = (1, 0))"
proof (intro conjI allI impI)
  let ?p = "\<lparr>self_M = M, self_N = N, theta_M = pi / real_of_int (4 * M),
                theta_N = pi / real_of_int (4 * N),
                leakage_prob = (pi / real_of_int (16 * M * N)) ^ 2\<rparr>"
  have N: "1 \<le> self_N ?p" using assms by simp
  show "\<exists>p. init exact_arith M N = Inr p \<and>
           foldl apply_gate s (gates_of (create_circuit p False measure_flag)) = s \<and>
           last (get_state_evolution p False) = (1, 0)"
    using pass_gates_identity [OF N, of s measure_flag] init_valid [OF assms]
      final_pass [of ?p]
    by simp
next
  fix q
  assume q: "init ar M N = Inr q"
  have N: "1 \<le> self_N q" using assms init_fields [OF q] by simp
  show "foldl apply_gate s (gates_of (create_circuit q False measure_flag)) = s"
    using N by (rule pass_gates_identity)
  show "last (get_state_evolution q False) = (1, 0)"
    by (rule final_pass)
qed

theorem pass_is_identity_witness:
  "foldl apply_gate (0, 1) (gates_of (create_circuit (projr (init exact_arith 3 2)) False True))
     = (0, 1) \<and>
   last (get_state_evolution (projr (init exact_arith 3 2)) False) = (1, 0) \<and>
   last (get_state_evolution (projr (init (ieee_arith square_rounded) 3 2)) False) = (1, 0)"
proof -
  have i: "init (ieee_arith square_rounded) 3 2 = Inr (projr (init (ieee_arith square_rounded) 3 2))"
    by (simp add: init_ieee_ok)
  show ?thesis
    using pass_is_identity [of 3 2 "(0, 1)" True exact_arith]
      pass_is_identity [of 3 2 "(0, 1)" True "ieee_arith square_rounded"] i
    by auto
qed

text \<open>
  Claim C4. For \<open>M = 4\<close>, \<open>N = 4\<close> and "pass" the last entry of the trajectory has
  \<open>P0 = 1\<close> and \<open>P1 = 0\<close>, so \<open>P1\<close> is below the leakage \<open>(pi / 256)\<^sup>2\<close> (over the reals,
  with no slack needed); \<open>P0 = 1\<close> and \<open>P1 = 0\<close> also for the object of any arithmetic.
\<close>
theorem pass_4_4_final:
  "(\<exists>p. init exact_arith 4 4 = Inr p \<and>
       prob_H (last (get_state_evolution p False)) = 1 \<and>
       prob_V (last (get_state_evolution p False)) = 0 \<and>
       prob_V (last (get_state_evolution p False)) \<le> leakage_prob p) \<and>
   (\<forall>q. init ar 4 4 = Inr q \<longrightarrow>
       prob_H (last (get_state_evolution q False)) = 1 \<and>
       prob_V (last (get_state_evolution q False)) = 0)"
  by (simp add: init_exact_eq final_pass prob_H_def prob_V_def)

theorem pass_4_4_final_witness:
  "prob_H (last (get_state_evolution (projr (init (ieee_arith square_rounded) 4 4)) False)) = 1 \<and>
   prob_V (last (get_state_evolution (projr (init (ieee_arith square_rounded) 4 4)) False)) = 0"
proof -
  have i: "init (ieee_arith square_rounded) 4 4 = Inr (projr (init (ieee_arith square_rounded) 4 4))"
    by (simp add: init_ieee_ok)
  show ?thesis
    using pass_4_4_final [of "ieee_arith square_rounded"] i by auto
qed

text \<open>
  Claim C1, as the code has it. For \<open>M = 4\<close>, \<open>N = 4\<close> and "block" the last entry of the
  trajectory is the rotation of the initial state by \<open>- 3 pi / 8\<close>: its probabilities are
  \<open>P1 = (2 + sqrt 2) / 4\<close> (about 0.854) and \<open>P0 = (2 - sqrt 2) / 4\<close> (about 0.146), and
  \<open>P0\<close> is above the leakage \<open>(pi / 256)\<^sup>2\<close> by more than a tenth.
\<close>
theorem block_4_4_final:
  "\<exists>p. init exact_arith 4 4 = Inr p \<and>
       prob_V (last (get_state_evolution p True)) = (2 + sqrt 2) / 4 \<and>
       prob_H (last (get_state_evolution p True)) = (2 - sqrt 2) / 4 \<and>
       leakage_prob p + 1 / 10 < prob_H (last (get_state_evolution p True))"
proof -
  have "leakage_prob \<lparr>self_M = 4, self_N = 4, theta_M = pi / 16, theta_N = pi / 16,
      leakage_prob = (pi / 256)\<^sup>2\<rparr> + 1 / 10 < (2 - sqrt 2) / 4"
    using sqrt2_less leakage_4_4_small by simp
  then show ?thesis
    by (simp only: init_4_4 final_block_4_4 prob_H_rot prob_V_rot cos_minus sin_minus
        power2_minus cos_3pi8_sq sin_3pi8_sq sum.inject simp_thms ex_simps)
qed

text \<open>The bound of the claim as stated, \<open>P0 \<le> L\<close> up to a slack (here even a tenth), fails.\<close>
theorem block_4_4_counterexample:
  "\<not> prob_H (last (get_state_evolution (projr (init exact_arith 4 4)) True))
       \<le> leakage_prob (projr (init exact_arith 4 4)) + 1 / 10"
proof -
  have "leakage_prob \<lparr>self_M = 4, self_N = 4, theta_M = pi / 16, theta_N = pi / 16,
      leakage_prob = (pi / 256)\<^sup>2\<rparr> + 1 / 10 < (2 - sqrt 2) / 4"
    using sqrt2_less leakage_4_4_small by simp
  then show ?thesis
    by (simp only: init_4_4 sum.sel final_block_4_4 prob_H_rot cos_minus cos_3pi8_sq not_le)
qed

text \<open>
  Claim C2, as the code has it. For \<open>M \<ge> 1\<close> and \<open>N \<ge> 1\<close> the trajectory has
  \<open>2 M + 2 N + 1\<close> entries in both scenarios: the initial state and one entry for each
  loop iteration. The gate sequence has \<open>2 M + 2 N\<close> gates with "pass" and one more, the
  flip, with "block". So the length is the number of gates plus one with "pass", and the
  number of gates with "block": the flip is appended to the circuit in the iteration of
  the midpoint rotation and the two share one entry. This holds for the object of exact
  arithmetic and for every object that the construction returns in any arithmetic.
\<close>
theorem trajectory_length:
  assumes "1 \<le> M" and "1 \<le> N"
  shows "(\<exists>p. init exact_arith M N = Inr p \<and>
           length (get_state_evolution p bob_blocks) = 2 * nat M + 2 * nat N + 1 \<and>
           length (gates_of (create_circuit p bob_blocks measure_flag)) =
             2 * nat M + 2 * nat N + (if bob_blocks then 1 else 0)) \<and>
         (\<forall>q. init ar M N = Inr q \<longrightarrow>
           length (get_state_evolution q bob_blocks) = 2 * nat M + 2 * nat N + 1 \<and>
           length (gates_of (create_circuit q bob_blocks measure_flag)) =
             2 * nat M + 2 * nat N + (if bob_blocks then 1 else 0))"
proof (intro conjI allI impI)
  let ?p = "\<lparr>self_M = M, self_N = N, theta_M = pi / real_of_int (4 * M),
                theta_N = pi / real_of_int (4 * N),
                leakage_prob = (pi / real_of_int (16 * M * N)) ^ 2\<rparr>"
  have N: "1 \<le> self_N ?p" using assms by simp
  show "\<exists>p. init exact_arith M N = Inr p \<and>
           length (get_state_evolution p bob_blocks) = 2 * nat M + 2 * nat N + 1 \<and>
           length (gates_of (create_circuit p bob_blocks measure_flag)) =
             2 * nat M + 2 * nat N + (if bob_blocks then 1 else 0)"
    using length_gates_create_circuit [OF N, of bob_blocks measure_flag]
      init_valid [OF assms] length_evolve [of ?p bob_blocks]
    by simp
next
  fix q
  assume q: "init ar M N = Inr q"
  have f: "self_M q = M" "self_N q = N" using init_fields [OF q] by simp_all
  have N: "1 \<le> self_N q" using assms f by simp
  show "length (get_state_evolution q bob_blocks) = 2 * nat M + 2 * nat N + 1"
    using length_evolve [of q bob_blocks] by (simp only: f)
  show "length (gates_of (create_circuit q bob_blocks measure_flag)) =
             2 * nat M + 2 * nat N + (if bob_blocks then 1 else 0)"
    using length_gates_create_circuit [OF N, of bob_blocks measure_flag] by (simp only: f)
qed

theorem trajectory_length_witness:
  "length (get_state_evolution (projr (init exact_arith 4 4)) True) = 17 \<and>
   length (gates_of (create_circuit (projr (init exact_arith 4 4)) True False)) = 17 \<and>
   length (get_state_evolution (projr (init exact_arith 4 4)) False) = 17 \<and>
   length (gates_of (create_circuit (projr (init exact_arith 4 4)) False False)) = 16 \<and>
   length (get_state_evolution (projr (init (ieee_arith square_rounded) 4 4)) True) = 17 \<and>
   length (gates_of (create_circuit (projr (init (ieee_arith square_rounded) 4 4)) True False)) = 17"
proof -
  have i: "init (ieee_arith square_rounded) 4 4 = Inr (projr (init (ieee_arith square_rounded) 4 4))"
    by (simp add: init_ieee_ok)
  show ?thesis
    using trajectory_length [of 4 4 True False exact_arith]
      trajectory_length [of 4 4 False False exact_arith]
      trajectory_length [of 4 4 True False "ieee_arith square_rounded"] i
    by auto
qed

text \<open>With \<open>M = N = 1\<close> and "block" there are five gates and five entries, not six.\<close>
theorem trajectory_length_counterexample:
  "length (get_state_evolution (projr (init exact_arith 1 1)) True) \<noteq>
     length (gates_of (create_circuit (projr (init exact_arith 1 1)) True False)) + 1"
proof -
  let ?p = "\<lparr>self_M = 1, self_N = 1, theta_M = pi / 4, theta_N = pi / 4,
                leakage_prob = (pi / 16)\<^sup>2\<rparr>"
  have N: "1 \<le> self_N ?p" by simp
  have i: "init exact_arith 1 1 = Inr ?p" by (simp add: init_exact_eq)
  have t: "length (get_state_evolution ?p True) = 5"
    by (simp add: length_evolve)
  have g: "length (gates_of (create_circuit ?p True False)) = 5"
    by (simp add: length_gates_create_circuit [OF N])
  show ?thesis
    by (simp add: i t g)
qed

lemma evolve_nonempty: "get_state_evolution p b \<noteq> []"
proof -
  have "length (get_state_evolution p b) \<noteq> 0" by (simp add: length_evolve)
  then show ?thesis by simp
qed

text \<open>
  Claim C5. For \<open>M \<ge> 1\<close>, \<open>N \<ge> 1\<close> and either decision, every entry of the trajectory
  (there is at least one) has \<open>|amp0|\<^sup>2 + |amp1|\<^sup>2 = 1\<close>, exactly over the reals: for the
  object of exact arithmetic and for every object that the construction returns in any
  arithmetic.
\<close>
theorem trajectory_normalized:
  assumes "1 \<le> M" and "1 \<le> N"
  shows "(\<exists>p. init exact_arith M N = Inr p \<and> get_state_evolution p bob_blocks \<noteq> [] \<and>
           (\<forall>s \<in> set (get_state_evolution p bob_blocks). prob_H s + prob_V s = 1)) \<and>
         (\<forall>q. init ar M N = Inr q \<longrightarrow> get_state_evolution q bob_blocks \<noteq> [] \<and>
           (\<forall>s \<in> set (get_state_evolution q bob_blocks). prob_H s + prob_V s = 1))"
  using init_valid [OF assms] norm_evolve evolve_nonempty by blast

theorem trajectory_normalized_witness:
  "prob_H (last (get_state_evolution (projr (init exact_arith 4 4)) True)) +
   prob_V (last (get_state_evolution (projr (init exact_arith 4 4)) True)) = 1 \<and>
   prob_H (last (get_state_evolution (projr (init (ieee_arith square_rounded) 4 4)) True)) +
   prob_V (last (get_state_evolution (projr (init (ieee_arith square_rounded) 4 4)) True)) = 1"
proof -
  have i: "init (ieee_arith square_rounded) 4 4 = Inr (projr (init (ieee_arith square_rounded) 4 4))"
    by (simp add: init_ieee_ok)
  have a: "prob_H (last (get_state_evolution p True)) + prob_V (last (get_state_evolution p True)) = 1"
    if "get_state_evolution p True \<noteq> []"
      and "\<forall>s \<in> set (get_state_evolution p True). prob_H s + prob_V s = 1" for p
    using that last_in_set by blast
  from trajectory_normalized [of 4 4 True "ieee_arith square_rounded"]
  obtain p where p: "init exact_arith 4 4 = Inr p" "get_state_evolution p True \<noteq> []"
    "\<forall>s \<in> set (get_state_evolution p True). prob_H s + prob_V s = 1"
    by auto
  from trajectory_normalized [of 4 4 True "ieee_arith square_rounded"] i
  have q: "get_state_evolution (projr (init (ieee_arith square_rounded) 4 4)) True \<noteq> []"
    "\<forall>s \<in> set (get_state_evolution (projr (init (ieee_arith square_rounded) 4 4)) True).
        prob_H s + prob_V s = 1"
    by auto
  show ?thesis using a [OF p(2,3)] a [OF q] by (simp add: p(1))
qed

end
